theory Spec2Isabelle
  imports Main "HOL-Library.Finite_Map"
begin

section \<open>Generalized Rock Paper Scissors: the class \<open>GRPS\<close> of grps.py\<close>

text \<open>
  Python integers are unbounded, so indices and sizes are \<open>int\<close>. Strings are
  \<open>string\<close>. A \<open>dict\<close> keyed by edges is a finite map. A raised exception is
  the \<open>Inl\<close> of a sum; for the property setters, which mutate \<open>self\<close>, the
  object after the call is returned beside the exception, if any.
\<close>

subsection \<open>Data model\<close>

datatype error =
    AssertionError
  | OverflowError
  | PlainException string
  | IndexError
  | KeyError
  | ValueError
  | TypeError

type_synonym edge = "int \<times> int"
type_synonym named_edge = "string \<times> string"

record game =
  n :: int
  ne :: int
  edge_verbs :: "(edge, string) fmap option"
  node_names :: "string list option"

subsection \<open>Python primitives used by the class\<close>

text \<open>\<open>int.bit_length\<close>: the number of bits of the absolute value.\<close>

function bit_length :: "int \<Rightarrow> nat" where
  "bit_length k = (if k = 0 then 0 else Suc (bit_length (\<bar>k\<bar> div 2)))"
  by auto
termination
  by (relation "measure (\<lambda>k. nat \<bar>k\<bar>)") auto

declare bit_length.simps [simp del]

text \<open>
  The IEEE double nearest to a non-negative integer \<open>q\<close>, ties to the even
  significand (53 bits). The result is again an integer, and it is \<open>q\<close> itself
  when \<open>q\<close> has at most 53 bits.
\<close>

definition round_double :: "int \<Rightarrow> int" where
  "round_double q =
     (let b = bit_length q in
      if b \<le> 53 then q
      else
        let e = b - 53;
            m = q div 2 ^ e;
            r = q mod 2 ^ e;
            h = 2 ^ (e - 1);
            m' = (if h < r \<or> (r = h \<and> odd m) then m + 1 else m)
        in m' * 2 ^ e)"

text \<open>
  \<open>int(a / 2)\<close> for an even \<open>a \<ge> 0\<close>: true division of two ints is correctly
  rounded to a double and raises \<open>OverflowError\<close> when the result exceeds the
  largest double; \<open>int\<close> of an integral double is that integer.
\<close>

definition int_truediv2 :: "int \<Rightarrow> error + int" where
  "int_truediv2 a =
     (let f = round_double (a div 2) in
      if 2 ^ 1024 \<le> f then Inl OverflowError else Inr f)"

text \<open>\<open>len(set(value)) == len(value)\<close>\<close>

definition len_set_eq_len :: "'a list \<Rightarrow> bool" where
  "len_set_eq_len xs = (length (remdups xs) = length xs)"

text \<open>A dict display \<open>{k1: v1, k2: v2, ...}\<close>: entries are stored left to right.\<close>

definition py_dict :: "('k \<times> 'v) list \<Rightarrow> ('k, 'v) fmap" where
  "py_dict kvs = fold (\<lambda>kv m. fmupd (fst kv) (snd kv) m) kvs fmempty"

text \<open>\<open>len(d)\<close> of a dict.\<close>

definition py_len :: "('k, 'v) fmap \<Rightarrow> int" where
  "py_len d = int (fcard (fmdom d))"

text \<open>\<open>d[k]\<close> of a dict.\<close>

definition dict_get :: "('k, 'v) fmap \<Rightarrow> 'k \<Rightarrow> error + 'v" where
  "dict_get d k = (case fmlookup d k of None \<Rightarrow> Inl KeyError | Some v \<Rightarrow> Inr v)"

text \<open>\<open>xs[i]\<close> of a sequence: a negative index counts from the end.\<close>

definition seq_get :: "'a list \<Rightarrow> int \<Rightarrow> error + 'a" where
  "seq_get xs i =
     (let l = int (length xs); j = (if i < 0 then l + i else i)
      in if 0 \<le> j \<and> j < l then Inr (xs ! nat j) else Inl IndexError)"

text \<open>\<open>xs.index(x)\<close>: the first position of \<open>x\<close>.\<close>

fun seq_index :: "'a list \<Rightarrow> 'a \<Rightarrow> error + int" where
  "seq_index [] x = Inl ValueError"
| "seq_index (y # ys) x =
     (if y = x then Inr 0
      else case seq_index ys x of Inl e \<Rightarrow> Inl e | Inr i \<Rightarrow> Inr (i + 1))"

text \<open>\<open>range(k)\<close>\<close>

definition py_range :: "int \<Rightarrow> int list" where
  "py_range k = [0..k - 1]"

subsection \<open>Construction\<close>

text \<open>\<open>GRPS.__init__\<close>: \<open>ne\<close> is computed before the two assertions run.\<close>

definition GRPS :: "int \<Rightarrow> error + game" where
  "GRPS k =
     (case int_truediv2 (k * (k - 1)) of
        Inl e \<Rightarrow> Inl e
      | Inr c \<Rightarrow>
          if \<not> 2 < k then Inl AssertionError
          else if k mod 2 \<noteq> 1 then Inl AssertionError
          else Inr \<lparr>n = k, ne = c, edge_verbs = None, node_names = None\<rparr>)"

subsection \<open>Outcome resolution and edge enumeration\<close>

text \<open>\<open>GRPS._resolve_outcome\<close>: the winning index, or \<open>-1\<close> for a tie.\<close>

definition resolve_outcome :: "game \<Rightarrow> int \<Rightarrow> int \<Rightarrow> error + int" where
  "resolve_outcome g n0 n1 =
     (if \<not> (0 \<le> n0 \<and> n0 \<le> n g - 1) then Inl AssertionError
      else if \<not> (0 \<le> n1 \<and> n1 \<le> n g - 1) then Inl AssertionError
      else if n0 = n1 then Inr (- 1)
      else if n0 mod 2 = n1 mod 2 then Inr (max n0 n1)
      else Inr (min n0 n1))"

text \<open>The inner function \<open>f\<close> of \<open>get_edge_indices\<close>.\<close>

definition edge_pred :: "game \<Rightarrow> edge \<Rightarrow> error + bool" where
  "edge_pred g elem =
     (case resolve_outcome g (fst elem) (snd elem) of
        Inl e \<Rightarrow> Inl e
      | Inr outcome \<Rightarrow> Inr (fst elem = outcome))"

text \<open>
  A list comprehension \<open>[x for x in xs if f(x)]\<close> whose condition may raise: the
  first exception ends the comprehension.
\<close>

fun filter_raising :: "('a \<Rightarrow> error + bool) \<Rightarrow> 'a list \<Rightarrow> error + 'a list" where
  "filter_raising f [] = Inr []"
| "filter_raising f (x # xs) =
     (case f x of
        Inl e \<Rightarrow> Inl e
      | Inr b \<Rightarrow>
          (case filter_raising f xs of
             Inl e \<Rightarrow> Inl e
           | Inr ys \<Rightarrow> Inr (if b then x # ys else ys)))"

text \<open>\<open>GRPS.get_edge_indices\<close>: \<open>itertools.product\<close> runs row-major.\<close>

definition get_edge_indices :: "game \<Rightarrow> error + edge list" where
  "get_edge_indices g =
     filter_raising (edge_pred g) (List.product (py_range (n g)) (py_range (n g)))"

subsection \<open>Game configuration\<close>

text \<open>
  The setter of the property \<open>node_names\<close>: both assertions run before the
  assignment. The result is the exception raised, if any, and the object after
  the call.
\<close>

definition node_names_setter :: "game \<Rightarrow> string list \<Rightarrow> error option \<times> game" where
  "node_names_setter g val =
     (if int (length val) \<noteq> n g then (Some AssertionError, g)
      else if \<not> len_set_eq_len val then (Some AssertionError, g)
      else (None, g\<lparr>node_names := Some val\<rparr>))"

text \<open>The setter of the property \<open>edge_verbs\<close>.\<close>

definition edge_verbs_setter :: "game \<Rightarrow> (edge, string) fmap \<Rightarrow> error option \<times> game" where
  "edge_verbs_setter g val =
     (if py_len val \<noteq> ne g then (Some AssertionError, g)
      else (None, g\<lparr>edge_verbs := Some val\<rparr>))"

text \<open>The lambda mapped over the edges by \<open>get_named_edge_indices\<close>.\<close>

definition named_edge_of :: "string list \<Rightarrow> edge \<Rightarrow> error + (edge \<times> named_edge)" where
  "named_edge_of names p =
     (case seq_get names (fst p) of
        Inl e \<Rightarrow> Inl e
      | Inr a \<Rightarrow>
          (case seq_get names (snd p) of
             Inl e \<Rightarrow> Inl e
           | Inr b \<Rightarrow> Inr (p, (a, b))))"

text \<open>\<open>list(map(f, xs))\<close> for an \<open>f\<close> that may raise.\<close>

fun map_raising :: "('a \<Rightarrow> error + 'b) \<Rightarrow> 'a list \<Rightarrow> error + 'b list" where
  "map_raising f [] = Inr []"
| "map_raising f (x # xs) =
     (case f x of
        Inl e \<Rightarrow> Inl e
      | Inr y \<Rightarrow>
          (case map_raising f xs of
             Inl e \<Rightarrow> Inl e
           | Inr ys \<Rightarrow> Inr (y # ys)))"

text \<open>\<open>GRPS.get_named_edge_indices\<close>\<close>

definition get_named_edge_indices :: "game \<Rightarrow> error + (edge \<times> named_edge) list" where
  "get_named_edge_indices g =
     (case node_names g of
        None \<Rightarrow> Inl (PlainException ''node_names are None'')
      | Some names \<Rightarrow>
          (case get_edge_indices g of
             Inl e \<Rightarrow> Inl e
           | Inr idx \<Rightarrow> map_raising (named_edge_of names) idx))"

subsection \<open>The factory configurations\<close>

text \<open>\<open>GRPS.classic\<close>\<close>

definition classic :: "error + game" where
  "classic =
     (case GRPS 3 of
        Inl e \<Rightarrow> Inl e
      | Inr game0 \<Rightarrow>
          (case node_names_setter game0 [''scissors'', ''paper'', ''rock''] of
             (Some e, _) \<Rightarrow> Inl e
           | (None, game1) \<Rightarrow>
               (case edge_verbs_setter game1
                       (py_dict [((0, 1), ''cuts''), ((1, 2), ''wraps''), ((2, 0), ''smashes'')]) of
                  (Some e, _) \<Rightarrow> Inl e
                | (None, game2) \<Rightarrow> Inr game2)))"

text \<open>
  \<open>GRPS.spock_version\<close>: the verbs are the classic ones, read from a fresh
  \<open>GRPS.classic()\<close>, updated with seven more entries (\<open>{**a, **b}\<close>).
\<close>

definition spock_version :: "error + game" where
  "spock_version =
     (case GRPS 5 of
        Inl e \<Rightarrow> Inl e
      | Inr game0 \<Rightarrow>
          (case node_names_setter game0
                  [''scissors'', ''paper'', ''rock'', ''lizard'', ''spock''] of
             (Some e, _) \<Rightarrow> Inl e
           | (None, game1) \<Rightarrow>
               (case classic of
                  Inl e \<Rightarrow> Inl e
                | Inr c \<Rightarrow>
                    (case edge_verbs c of
                       None \<Rightarrow> Inl TypeError
                     | Some cv \<Rightarrow>
                         (case edge_verbs_setter game1
                                 (fmadd cv
                                    (py_dict [((0, 3), ''cuts''), ((1, 4), ''proves''),
                                              ((2, 3), ''smashes''), ((3, 1), ''eats''),
                                              ((3, 4), ''poisons''), ((4, 0), ''breaks''),
                                              ((4, 2), ''vaporizes'')])) of
                            (Some e, _) \<Rightarrow> Inl e
                          | (None, game2) \<Rightarrow> Inr game2)))))"

subsection \<open>Playing a match\<close>

datatype move = IntMove int | StrMove string

type_synonym match_result = "int \<times> (int \<times> int)"

text \<open>
  \<open>GRPS._play_int\<close>. The number drawn by \<open>_sample_move\<close>, that is by
  \<open>randint(0, self.n - 1)\<close>, is the argument \<open>drawn\<close>; it is read only when
  \<open>i2\<close> is \<open>None\<close>.
\<close>

definition play_int :: "game \<Rightarrow> int \<Rightarrow> int option \<Rightarrow> int \<Rightarrow> error + match_result" where
  "play_int g i i2 drawn =
     (if \<not> (0 \<le> i \<and> i < n g) then Inl AssertionError
      else
        (case i2 of
           None \<Rightarrow>
             (case resolve_outcome g i drawn of
                Inl e \<Rightarrow> Inl e
              | Inr outcome \<Rightarrow> Inr (outcome, (i, drawn)))
         | Some j \<Rightarrow>
             if \<not> (0 \<le> j \<and> j < n g) then Inl AssertionError
             else
               (case resolve_outcome g i j of
                  Inl e \<Rightarrow> Inl e
                | Inr outcome \<Rightarrow> Inr (outcome, (i, j)))))"

text \<open>\<open>GRPS._play_str\<close>; \<open>x in None\<close> raises \<open>TypeError\<close>.\<close>

definition play_str :: "game \<Rightarrow> string \<Rightarrow> string option \<Rightarrow> int \<Rightarrow> error + match_result" where
  "play_str g node node2 drawn =
     (case node_names g of
        None \<Rightarrow> Inl TypeError
      | Some names \<Rightarrow>
          if node \<notin> set names then Inl AssertionError
          else
            (case node2 of
               Some nd2 \<Rightarrow>
                 if nd2 \<notin> set names then Inl AssertionError
                 else
                   (case seq_index names node of
                      Inl e \<Rightarrow> Inl e
                    | Inr a \<Rightarrow>
                        (case seq_index names nd2 of
                           Inl e \<Rightarrow> Inl e
                         | Inr b \<Rightarrow> play_int g a (Some b) drawn))
             | None \<Rightarrow>
                 (case seq_index names node of
                    Inl e \<Rightarrow> Inl e
                  | Inr a \<Rightarrow> play_int g a None drawn)))"

text \<open>The message built and printed by the string branch of \<open>play\<close>.\<close>

definition narrative ::
  "string list \<Rightarrow> (edge, string) fmap \<Rightarrow> bool \<Rightarrow> match_result \<Rightarrow> error + string" where
  "narrative names verbs sampled res =
     (case res of (result, (player_idx, pc_idx)) \<Rightarrow>
        (case seq_get names player_idx of
           Inl e \<Rightarrow> Inl e
         | Inr player \<Rightarrow>
             (case seq_get names pc_idx of
                Inl e \<Rightarrow> Inl e
              | Inr pc \<Rightarrow>
                  if result = - 1 then Inr (pc @ '' vs. '' @ pc @ '', tie!'')
                  else if result = player_idx then
                    (case dict_get verbs (player_idx, pc_idx) of
                       Inl e \<Rightarrow> Inl e
                     | Inr verb \<Rightarrow>
                         if sampled then Inr (player @ '' '' @ verb @ '' '' @ pc @ '', you win!'')
                         else Inr (player @ '' '' @ verb @ '' '' @ pc @ '', player1 wins!''))
                  else
                    (case dict_get verbs (pc_idx, player_idx) of
                       Inl e \<Rightarrow> Inl e
                     | Inr verb \<Rightarrow>
                         if sampled then Inr (pc @ '' '' @ verb @ '' '' @ player @ '', you lose!'')
                         else Inr (pc @ '' '' @ verb @ '' '' @ player @ '', player2 wins!'')))))"

text \<open>
  \<open>GRPS.play\<close>. The result is the returned value and the lines printed. The
  integer branch returns what \<open>_play_int\<close> returns and prints nothing; the
  string branch prints the message and has no \<open>return\<close>, so it returns
  \<open>None\<close>.
\<close>

definition play ::
  "game \<Rightarrow> move \<Rightarrow> move option \<Rightarrow> int \<Rightarrow> error + (match_result option \<times> string list)" where
  "play g mv mv2 drawn =
     (case mv of
        IntMove i \<Rightarrow>
          (case mv2 of
             Some (StrMove _) \<Rightarrow> Inl AssertionError
           | Some (IntMove j) \<Rightarrow>
               (case play_int g i (Some j) drawn of
                  Inl e \<Rightarrow> Inl e
                | Inr res \<Rightarrow> Inr (Some res, []))
           | None \<Rightarrow>
               (case play_int g i None drawn of
                  Inl e \<Rightarrow> Inl e
                | Inr res \<Rightarrow> Inr (Some res, [])))
      | StrMove s \<Rightarrow>
          (case mv2 of
             Some (IntMove _) \<Rightarrow> Inl AssertionError
           | _ \<Rightarrow>
               (case node_names g of
                  None \<Rightarrow> Inl AssertionError
                | Some names \<Rightarrow>
                    (case edge_verbs g of
                       None \<Rightarrow> Inl AssertionError
                     | Some verbs \<Rightarrow>
                         (case play_str g s (case mv2 of Some (StrMove t) \<Rightarrow> Some t | _ \<Rightarrow> None)
                                 drawn of
                            Inl e \<Rightarrow> Inl e
                          | Inr res \<Rightarrow>
                              (case narrative names verbs (mv2 = None) res of
                                 Inl e \<Rightarrow> Inl e
                               | Inr msg \<Rightarrow> Inr (None, [msg])))))))"

subsection \<open>Auxiliary notions for the statements and proofs\<close>

text \<open>
  The condition under which the comprehension of \<open>get_edge_indices\<close> keeps a
  pair \<open>(i, j)\<close> of indices in range: \<open>_resolve_outcome(i, j)\<close> is \<open>i\<close>. That
  excludes the tie, whose outcome \<open>-1\<close> is no index, and leaves the larger index
  for equal parities and the smaller one otherwise. Lemma \<open>edge_pred_in_range\<close>
  below proves that \<open>edge_pred\<close> computes exactly this.
\<close>

definition beats :: "int \<Rightarrow> int \<Rightarrow> bool" where
  "beats i j = (i \<noteq> j \<and> (if i mod 2 = j mod 2 then j < i else i < j))"

text \<open>The objects that \<open>GRPS(3)\<close> and \<open>GRPS(5)\<close> construct.\<close>

definition game3 :: game where
  "game3 = \<lparr>n = 3, ne = 3, edge_verbs = None, node_names = None\<rparr>"

definition game5 :: game where
  "game5 = \<lparr>n = 5, ne = 10, edge_verbs = None, node_names = None\<rparr>"

text \<open>
  What the setter of \<open>node_names\<close> guarantees of the stored names: there are
  \<open>n\<close> of them and no two are equal. It holds of every object built by the
  constructor and changed through the setters only.
\<close>

definition names_valid :: "game \<Rightarrow> bool" where
  "names_valid g =
     (case node_names g of
        None \<Rightarrow> True
      | Some names \<Rightarrow> int (length names) = n g \<and> distinct names)"

text \<open>The object that \<open>GRPS.classic()\<close> returns.\<close>

definition classic_game :: game where
  "classic_game =
     \<lparr>n = 3, ne = 3,
      edge_verbs = Some (py_dict [((0, 1), ''cuts''), ((1, 2), ''wraps''), ((2, 0), ''smashes'')]),
      node_names = Some [''scissors'', ''paper'', ''rock'']\<rparr>"

text \<open>
  A verb map with three keys, none of which is an edge of the classic game, and
  the classic game after that map was assigned to \<open>edge_verbs\<close>.
\<close>

definition mismatched_verbs :: "(edge, string) fmap" where
  "mismatched_verbs = py_dict [((0, 0), ''a''), ((1, 1), ''b''), ((2, 2), ''c'')]"

definition mismatched_game :: game where
  "mismatched_game = classic_game\<lparr>edge_verbs := Some mismatched_verbs\<rparr>"

text \<open>
  The verb map that \<open>GRPS.spock_version()\<close> assigns, and the object it returns.
\<close>

definition spock_verbs :: "(edge, string) fmap" where
  "spock_verbs =
     fmadd (py_dict [((0, 1), ''cuts''), ((1, 2), ''wraps''), ((2, 0), ''smashes'')])
       (py_dict [((0, 3), ''cuts''), ((1, 4), ''proves''), ((2, 3), ''smashes''),
                 ((3, 1), ''eats''), ((3, 4), ''poisons''), ((4, 0), ''breaks''),
                 ((4, 2), ''vaporizes'')])"

definition spock_game :: game where
  "spock_game =
     \<lparr>n = 5, ne = 10, edge_verbs = Some spock_verbs,
      node_names = Some [''scissors'', ''paper'', ''rock'', ''lizard'', ''spock'']\<rparr>"

text \<open>
  The keys of the stored verb map are exactly the edges that
  \<open>get_edge_indices\<close> returns.
\<close>

definition verbs_match_edges :: "game \<Rightarrow> bool" where
  "verbs_match_edges g =
     (case get_edge_indices g of
        Inl _ \<Rightarrow> False
      | Inr es \<Rightarrow>
          (case edge_verbs g of
             None \<Rightarrow> False
           | Some verbs \<Rightarrow> fset (fmdom verbs) = set es))"

section \<open>Properties\<close>

subsection \<open>The enumerated edges\<close>

lemma GRPS_3: "GRPS 3 = Inr game3"
  unfolding game3_def by code_simp

lemma GRPS_5: "GRPS 5 = Inr game5"
  unfolding game5_def by code_simp

lemma set_py_range: "set (py_range k) = {0..k - 1}"
  by (simp add: py_range_def)

lemma distinct_py_range: "distinct (py_range k)"
  by (simp add: py_range_def)

lemma length_py_range: "length (py_range k) = nat k"
  by (simp add: py_range_def)

lemma edge_pred_in_range:
  assumes "0 \<le> i" "i < n g" "0 \<le> j" "j < n g"
  shows "edge_pred g (i, j) = Inr (beats i j)"
  using assms by (auto simp: edge_pred_def resolve_outcome_def beats_def max_def min_def)

lemma filter_raising_total:
  assumes "\<And>x. x \<in> set xs \<Longrightarrow> f x = Inr (P x)"
  shows "filter_raising f xs = Inr (filter P xs)"
  using assms by (induction xs) auto

lemma get_edge_indices_eq:
  "get_edge_indices g =
     Inr (filter (\<lambda>e. beats (fst e) (snd e)) (List.product (py_range (n g)) (py_range (n g))))"
  unfolding get_edge_indices_def
  by (rule filter_raising_total) (auto simp: set_py_range edge_pred_in_range)

lemma beats_antisym: "i \<noteq> j \<Longrightarrow> beats i j \<noteq> beats j i"
  by (auto simp: beats_def)

lemma mod2_eq_iff: "((i::int) mod 2 = j mod 2) \<longleftrightarrow> even (j - i)"
  by presburger

lemma beats_circulant:
  assumes "odd N" "0 \<le> i" "i < N" "0 \<le> j" "j < N"
  shows "beats i j \<longleftrightarrow> odd ((j - i) mod N)"
proof (cases "i \<le> j")
  case True
  then have m: "(j - i) mod N = j - i" using assms by simp
  show ?thesis
  proof (cases "even (j - i)")
    case True
    then show ?thesis using \<open>i \<le> j\<close> by (simp add: beats_def mod2_eq_iff m)
  next
    case False
    then have "i \<noteq> j" by auto
    then show ?thesis using False \<open>i \<le> j\<close> by (simp add: beats_def mod2_eq_iff m)
  qed
next
  case False
  then have "0 \<le> j - i + N" "j - i + N < N" using assms by auto
  then have "(j - i + N) mod N = j - i + N" by (rule mod_pos_pos_trivial)
  moreover have "(j - i + N) mod N = (j - i) mod N" by simp
  ultimately have m: "(j - i) mod N = j - i + N" by simp
  have "even (j - i + N) \<longleftrightarrow> odd (j - i)" using assms(1) by simp
  then show ?thesis using False by (auto simp: beats_def mod2_eq_iff m)
qed

lemma card_odd_below:
  "card {d::int. 0 \<le> d \<and> d < 2 * int k + 1 \<and> odd d} = k"
proof -
  have "{d::int. 0 \<le> d \<and> d < 2 * int k + 1 \<and> odd d} = (\<lambda>m. 2 * int m + 1) ` {..<k}"
  proof (rule set_eqI, rule iffI)
    fix d :: int
    assume "d \<in> {d. 0 \<le> d \<and> d < 2 * int k + 1 \<and> odd d}"
    then have d: "0 \<le> d" "d < 2 * int k + 1" "odd d" by auto
    then obtain c where c: "d = 2 * c + 1" by (auto elim: oddE)
    with d have "0 \<le> c" "c < int k" by auto
    then have "nat c < k" "d = 2 * int (nat c) + 1" using c by auto
    then show "d \<in> (\<lambda>m. 2 * int m + 1) ` {..<k}" by blast
  next
    fix d :: int
    assume "d \<in> (\<lambda>m. 2 * int m + 1) ` {..<k}"
    then show "d \<in> {d. 0 \<le> d \<and> d < 2 * int k + 1 \<and> odd d}" by auto
  qed
  moreover have "inj_on (\<lambda>m. 2 * int m + 1) {..<k}" by (auto simp: inj_on_def)
  ultimately show ?thesis by (simp add: card_image)
qed

lemma edges_set:
  "set (filter (\<lambda>e. beats (fst e) (snd e)) (List.product (py_range N) (py_range N)))
     = {(i, j). 0 \<le> i \<and> i < N \<and> 0 \<le> j \<and> j < N \<and> beats i j}"
  by (auto simp: set_py_range)

lemma edges_distinct:
  "distinct (filter (\<lambda>e. beats (fst e) (snd e)) (List.product (py_range N) (py_range N)))"
  by (simp add: distinct_product distinct_py_range)

lemma out_neighbours_card:
  assumes "odd N" "0 \<le> i" "i < N"
  shows "card {j. 0 \<le> j \<and> j < N \<and> beats i j} = nat ((N - 1) div 2)"
proof -
  let ?A = "{j. 0 \<le> j \<and> j < N \<and> beats i j}"
  let ?B = "{d. 0 \<le> d \<and> d < N \<and> odd d}"
  have "bij_betw (\<lambda>j. (j - i) mod N) ?A ?B"
  proof (rule bij_betw_byWitness[where f' = "\<lambda>d. (d + i) mod N"])
    show "\<forall>a\<in>?A. ((a - i) mod N + i) mod N = a" using assms by (auto simp: mod_simps)
    show "\<forall>a'\<in>?B. ((a' + i) mod N - i) mod N = a'" using assms by (auto simp: mod_simps)
    show "(\<lambda>j. (j - i) mod N) ` ?A \<subseteq> ?B" using assms by (auto simp: beats_circulant)
    show "(\<lambda>d. (d + i) mod N) ` ?B \<subseteq> ?A"
    proof
      fix x assume "x \<in> (\<lambda>d. (d + i) mod N) ` ?B"
      then obtain d where d: "0 \<le> d" "d < N" "odd d" "x = (d + i) mod N" by auto
      have r: "0 \<le> x" "x < N" using assms d by auto
      have "(x - i) mod N = d" using d by (simp add: mod_simps)
      then have "beats i x" using assms r d by (simp add: beats_circulant)
      then show "x \<in> ?A" using r by simp
    qed
  qed
  then have "card ?A = card ?B" by (rule bij_betw_same_card)
  moreover obtain c where c: "N = 2 * c + 1" using assms(1) by (auto elim: oddE)
  moreover have "0 \<le> c" using assms c by auto
  ultimately show ?thesis using card_odd_below[of "nat c"] by simp
qed

lemma in_neighbours_card:
  assumes "odd N" "0 \<le> i" "i < N"
  shows "card {j. 0 \<le> j \<and> j < N \<and> beats j i} = nat ((N - 1) div 2)"
proof -
  let ?A = "{j. 0 \<le> j \<and> j < N \<and> beats j i}"
  let ?B = "{d. 0 \<le> d \<and> d < N \<and> odd d}"
  have "bij_betw (\<lambda>j. (i - j) mod N) ?A ?B"
  proof (rule bij_betw_byWitness[where f' = "\<lambda>d. (i - d) mod N"])
    show "\<forall>a\<in>?A. (i - (i - a) mod N) mod N = a" using assms by (auto simp: mod_simps)
    show "\<forall>a'\<in>?B. (i - (i - a') mod N) mod N = a'" using assms by (auto simp: mod_simps)
    show "(\<lambda>j. (i - j) mod N) ` ?A \<subseteq> ?B" using assms by (auto simp: beats_circulant)
    show "(\<lambda>d. (i - d) mod N) ` ?B \<subseteq> ?A"
    proof
      fix x assume "x \<in> (\<lambda>d. (i - d) mod N) ` ?B"
      then obtain d where d: "0 \<le> d" "d < N" "odd d" "x = (i - d) mod N" by auto
      have r: "0 \<le> x" "x < N" using assms d by auto
      have "(i - x) mod N = d" using d by (simp add: mod_simps)
      then have "beats x i" using assms r d by (simp add: beats_circulant)
      then show "x \<in> ?A" using r by simp
    qed
  qed
  then have "card ?A = card ?B" by (rule bij_betw_same_card)
  moreover obtain c where c: "N = 2 * c + 1" using assms(1) by (auto elim: oddE)
  moreover have "0 \<le> c" using assms c by auto
  ultimately show ?thesis using card_odd_below[of "nat c"] by simp
qed

lemma out_degree_card:
  assumes "0 \<le> i" "i < N"
  shows "length (filter (\<lambda>e. fst e = i)
           (filter (\<lambda>e. beats (fst e) (snd e)) (List.product (py_range N) (py_range N))))
         = card {j. 0 \<le> j \<and> j < N \<and> beats i j}"
proof -
  let ?es = "filter (\<lambda>e. beats (fst e) (snd e)) (List.product (py_range N) (py_range N))"
  have "length (filter (\<lambda>e. fst e = i) ?es) = card ({e. fst e = i} \<inter> set ?es)"
    using edges_distinct by (rule distinct_length_filter)
  also have "{e. fst e = i} \<inter> set ?es = (\<lambda>j. (i, j)) ` {j. 0 \<le> j \<and> j < N \<and> beats i j}"
    unfolding edges_set using assms by auto
  also have "card \<dots> = card {j. 0 \<le> j \<and> j < N \<and> beats i j}"
    by (rule card_image) (simp add: inj_on_def)
  finally show ?thesis .
qed

lemma in_degree_card:
  assumes "0 \<le> i" "i < N"
  shows "length (filter (\<lambda>e. snd e = i)
           (filter (\<lambda>e. beats (fst e) (snd e)) (List.product (py_range N) (py_range N))))
         = card {j. 0 \<le> j \<and> j < N \<and> beats j i}"
proof -
  let ?es = "filter (\<lambda>e. beats (fst e) (snd e)) (List.product (py_range N) (py_range N))"
  have "length (filter (\<lambda>e. snd e = i) ?es) = card ({e. snd e = i} \<inter> set ?es)"
    using edges_distinct by (rule distinct_length_filter)
  also have "{e. snd e = i} \<inter> set ?es = (\<lambda>j. (j, i)) ` {j. 0 \<le> j \<and> j < N \<and> beats j i}"
    unfolding edges_set using assms by auto
  also have "card \<dots> = card {j. 0 \<le> j \<and> j < N \<and> beats j i}"
    by (rule card_image) (simp add: inj_on_def)
  finally show ?thesis .
qed

lemma edges_length:
  assumes "odd N" "0 < N"
  shows "int (length (filter (\<lambda>e. beats (fst e) (snd e)) (List.product (py_range N) (py_range N))))
         = N * (N - 1) div 2"
proof -
  let ?es = "filter (\<lambda>e. beats (fst e) (snd e)) (List.product (py_range N) (py_range N))"
  let ?Out = "\<lambda>i. {j. 0 \<le> j \<and> j < N \<and> beats i j}"
  have fin: "\<And>i. finite (?Out i)"
  proof -
    fix i
    have "?Out i \<subseteq> {0..N - 1}" by auto
    then show "finite (?Out i)" by (rule finite_subset) simp
  qed
  have "length ?es = card (set ?es)" by (rule distinct_card[symmetric, OF edges_distinct])
  also have "set ?es = (SIGMA i:{0..N - 1}. ?Out i)" unfolding edges_set by auto
  also have "card \<dots> = (\<Sum>i\<in>{0..N - 1}. card (?Out i))"
    by (rule card_SigmaI) (use fin in auto)
  also have "\<dots> = (\<Sum>i\<in>{0..N - 1}. nat ((N - 1) div 2))"
    by (rule sum.cong) (use assms in \<open>auto simp: out_neighbours_card\<close>)
  also have "\<dots> = nat N * nat ((N - 1) div 2)" by simp
  finally have "int (length ?es) = N * ((N - 1) div 2)" using assms by (simp add: nat_mult_distrib)
  moreover obtain c where "N = 2 * c + 1" using assms(1) by (auto elim: oddE)
  ultimately show ?thesis by simp
qed

text \<open>
  Claim C1. For indices \<open>n0\<close> and \<open>n1\<close> in \<open>[0, N)\<close> the resolver raises nothing
  and returns the tie sentinel \<open>-1\<close> when \<open>n0 = n1\<close>, the larger index when the two
  have the same parity, and the smaller index otherwise.
\<close>

theorem resolve_outcome_rule:
  assumes "0 \<le> n0" "n0 < n g" "0 \<le> n1" "n1 < n g"
  shows "resolve_outcome g n0 n1 =
           Inr (if n0 = n1 then - 1
                else if (even n0 \<longleftrightarrow> even n1) then max n0 n1
                else min n0 n1)"
proof -
  have "(n0 mod 2 = n1 mod 2) \<longleftrightarrow> (even n0 \<longleftrightarrow> even n1)" by presburger
  then show ?thesis using assms by (simp add: resolve_outcome_def)
qed

theorem resolve_outcome_rule_witness:
  "resolve_outcome game5 2 2 = Inr (- 1) \<and> resolve_outcome game5 1 3 = Inr 3
   \<and> resolve_outcome game5 1 2 = Inr 1 \<and> resolve_outcome game5 4 3 = Inr 3"
  using resolve_outcome_rule[of 2 game5 2] resolve_outcome_rule[of 1 game5 3]
    resolve_outcome_rule[of 1 game5 2] resolve_outcome_rule[of 4 game5 3]
  by (simp add: game5_def)

text \<open>
  Claim C2. For an odd size \<open>N \<ge> 3\<close> and distinct indices \<open>i\<close>, \<open>j\<close> in \<open>[0, N)\<close>, the
  edge enumeration returns a list without repetitions that holds exactly one of
  \<open>(i, j)\<close> and \<open>(j, i)\<close>, and the list has \<open>N (N - 1) / 2\<close> entries.
\<close>

theorem edges_one_direction_and_count:
  assumes "3 \<le> n g" "odd (n g)" "0 \<le> i" "i < n g" "0 \<le> j" "j < n g" "i \<noteq> j"
  shows "\<exists>es. get_edge_indices g = Inr es \<and> distinct es
           \<and> ((i, j) \<in> set es) \<noteq> ((j, i) \<in> set es)
           \<and> int (length es) = n g * (n g - 1) div 2"
proof -
  let ?es = "filter (\<lambda>e. beats (fst e) (snd e)) (List.product (py_range (n g)) (py_range (n g)))"
  have "((i, j) \<in> set ?es) \<noteq> ((j, i) \<in> set ?es)"
    unfolding edges_set using assms beats_antisym[of i j] by simp
  moreover have "int (length ?es) = n g * (n g - 1) div 2"
    using assms by (intro edges_length) auto
  ultimately show ?thesis using get_edge_indices_eq[of g] edges_distinct[of "n g"] by blast
qed

theorem edges_one_direction_and_count_witness:
  "\<exists>es. get_edge_indices game5 = Inr es \<and> distinct es
           \<and> ((1, 3) \<in> set es) \<noteq> ((3, 1) \<in> set es)
           \<and> int (length es) = 10"
  using edges_one_direction_and_count[of game5 1 3] by (simp add: game5_def)

text \<open>
  Claim C3. For an odd size \<open>N \<ge> 3\<close> and an index \<open>i\<close> in \<open>[0, N)\<close>, the number of
  enumerated edges that start at \<open>i\<close> and the number that end at \<open>i\<close> are both
  \<open>(N - 1) / 2\<close>.
\<close>

theorem degrees_balanced:
  assumes "3 \<le> n g" "odd (n g)" "0 \<le> i" "i < n g"
  shows "\<exists>es. get_edge_indices g = Inr es
           \<and> int (length (filter (\<lambda>e. fst e = i) es)) = (n g - 1) div 2
           \<and> int (length (filter (\<lambda>e. snd e = i) es)) = (n g - 1) div 2"
proof -
  let ?es = "filter (\<lambda>e. beats (fst e) (snd e)) (List.product (py_range (n g)) (py_range (n g)))"
  have "length (filter (\<lambda>e. fst e = i) ?es) = nat ((n g - 1) div 2)"
    using out_degree_card[of i "n g"] out_neighbours_card[of "n g" i] assms by linarith
  moreover have "length (filter (\<lambda>e. snd e = i) ?es) = nat ((n g - 1) div 2)"
    using in_degree_card[of i "n g"] in_neighbours_card[of "n g" i] assms by linarith
  moreover have "0 \<le> (n g - 1) div 2" using assms by simp
  ultimately show ?thesis using get_edge_indices_eq[of g] by auto
qed

theorem degrees_balanced_witness:
  "\<exists>es. get_edge_indices game5 = Inr es
           \<and> int (length (filter (\<lambda>e. fst e = 3) es)) = 2
           \<and> int (length (filter (\<lambda>e. snd e = 3) es)) = 2"
  using degrees_balanced[of game5 3] by (simp add: game5_def)

text \<open>
  Claim C4. The edges enumerated for size \<open>N\<close> are among the edges enumerated for
  size \<open>N + 2\<close>; they are exactly those of the larger game with both indices
  below \<open>N\<close>.
\<close>

theorem edges_contained_in_next_size:
  assumes "n g' = n g + 2"
  shows "\<exists>es es'. get_edge_indices g = Inr es \<and> get_edge_indices g' = Inr es'
           \<and> set es \<subseteq> set es'
           \<and> set es = {e \<in> set es'. fst e < n g \<and> snd e < n g}"
proof -
  let ?E = "\<lambda>N. filter (\<lambda>e. beats (fst e) (snd e)) (List.product (py_range N) (py_range N))"
  have "set (?E (n g)) \<subseteq> set (?E (n g'))" unfolding edges_set using assms by auto
  moreover have "set (?E (n g)) = {e \<in> set (?E (n g')). fst e < n g \<and> snd e < n g}"
    unfolding edges_set using assms by auto
  ultimately show ?thesis using get_edge_indices_eq[of g] get_edge_indices_eq[of g'] by blast
qed

theorem edges_contained_in_next_size_witness:
  "\<exists>es es'. get_edge_indices game3 = Inr es \<and> get_edge_indices game5 = Inr es'
           \<and> set es \<subseteq> set es'
           \<and> set es = {e \<in> set es'. fst e < 3 \<and> snd e < 3}"
  using edges_contained_in_next_size[of game5 game3] by (simp add: game3_def game5_def)

subsection \<open>Game configuration\<close>

lemma classic_eq: "classic = Inr classic_game"
  unfolding classic_game_def by code_simp

lemma len_set_eq_len_iff: "len_set_eq_len xs \<longleftrightarrow> distinct xs"
  unfolding len_set_eq_len_def
  by (metis distinct_remdups length_remdups_eq remdups_id_iff_distinct)

lemma names_valid_GRPS: "GRPS k = Inr g \<Longrightarrow> names_valid g"
  by (auto simp: GRPS_def names_valid_def split: sum.splits if_splits)

lemma names_valid_node_names_setter:
  "names_valid g \<Longrightarrow> names_valid (snd (node_names_setter g v))"
  by (auto simp: node_names_setter_def names_valid_def len_set_eq_len_iff split: option.splits)

lemma names_valid_edge_verbs_setter:
  "names_valid g \<Longrightarrow> names_valid (snd (edge_verbs_setter g v))"
  by (auto simp: edge_verbs_setter_def names_valid_def split: option.splits)

text \<open>
  Claim C7. Assigning names raises exactly when the sequence has a length other
  than \<open>N\<close> or holds a duplicate. When it raises, the object is unchanged, so
  the names stored before are still there; otherwise the stored names are the
  given sequence.
\<close>

theorem node_names_setter_spec:
  "(fst (node_names_setter g v) \<noteq> None \<longleftrightarrow> (int (length v) \<noteq> n g \<or> \<not> distinct v))
   \<and> (fst (node_names_setter g v) \<noteq> None \<longrightarrow> snd (node_names_setter g v) = g)
   \<and> (fst (node_names_setter g v) = None \<longrightarrow>
        snd (node_names_setter g v) = g\<lparr>node_names := Some v\<rparr>)"
  by (simp add: node_names_setter_def len_set_eq_len_iff)

theorem node_names_setter_spec_witness:
  "node_names_setter classic_game [''a'', ''a'', ''b''] = (Some AssertionError, classic_game)
   \<and> node_names_setter classic_game [''a'', ''b''] = (Some AssertionError, classic_game)
   \<and> node_names_setter classic_game [''a'', ''c'', ''b'']
       = (None, classic_game\<lparr>node_names := Some [''a'', ''c'', ''b'']\<rparr>)"
proof -
  have n3: "n classic_game = 3" by (simp add: classic_game_def)
  have "fst (node_names_setter classic_game [''a'', ''a'', ''b'']) \<noteq> None"
    using node_names_setter_spec[of classic_game "[''a'', ''a'', ''b'']"] by simp
  moreover have "fst (node_names_setter classic_game [''a'', ''b'']) \<noteq> None"
    using node_names_setter_spec[of classic_game "[''a'', ''b'']"] n3 by simp
  moreover have "fst (node_names_setter classic_game [''a'', ''c'', ''b'']) = None"
    using node_names_setter_spec[of classic_game "[''a'', ''c'', ''b'']"] n3 by simp
  ultimately show ?thesis
    using node_names_setter_spec[of classic_game "[''a'', ''a'', ''b'']"]
      node_names_setter_spec[of classic_game "[''a'', ''b'']"]
      node_names_setter_spec[of classic_game "[''a'', ''c'', ''b'']"]
    by (auto simp: node_names_setter_def split: if_splits)
qed

lemma map_raising_total:
  assumes "\<And>x. x \<in> set xs \<Longrightarrow> f x = Inr (h x)"
  shows "map_raising f xs = Inr (map h xs)"
  using assms by (induction xs) auto

lemma seq_get_in_range:
  "0 \<le> i \<Longrightarrow> i < int (length xs) \<Longrightarrow> seq_get xs i = Inr (xs ! nat i)"
  by (simp add: seq_get_def)

lemma get_edge_indices_total: "\<exists>es. get_edge_indices g = Inr es"
  by (simp add: get_edge_indices_eq)

lemma get_edge_indices_in_range:
  "get_edge_indices g = Inr es \<Longrightarrow> e \<in> set es \<Longrightarrow>
     0 \<le> fst e \<and> fst e < n g \<and> 0 \<le> snd e \<and> snd e < n g"
  by (auto simp: get_edge_indices_eq set_py_range)

text \<open>
  Claim C8. The named edge list raises exactly when no names are stored. With
  names stored it returns, for each edge of the enumeration and in the same
  order, the edge with the pair of the names at its two indices.
\<close>

theorem get_named_edge_indices_spec:
  assumes "names_valid g"
  shows "((\<exists>e. get_named_edge_indices g = Inl e) \<longleftrightarrow> node_names g = None)
     \<and> (\<exists>es. get_edge_indices g = Inr es \<and>
          (case node_names g of
             None \<Rightarrow> get_named_edge_indices g = Inl (PlainException ''node_names are None'')
           | Some names \<Rightarrow>
               get_named_edge_indices g =
                 Inr (map (\<lambda>e. (e, (names ! nat (fst e), names ! nat (snd e)))) es)))"
proof (cases "node_names g")
  case None
  then show ?thesis using get_edge_indices_total[of g] by (auto simp: get_named_edge_indices_def)
next
  case (Some names)
  obtain es where es: "get_edge_indices g = Inr es" using get_edge_indices_total by blast
  have len: "int (length names) = n g" using assms Some by (simp add: names_valid_def)
  have "map_raising (named_edge_of names) es
          = Inr (map (\<lambda>e. (e, (names ! nat (fst e), names ! nat (snd e)))) es)"
  proof (rule map_raising_total)
    fix e assume "e \<in> set es"
    then have "0 \<le> fst e \<and> fst e < n g \<and> 0 \<le> snd e \<and> snd e < n g"
      using es by (rule get_edge_indices_in_range[rotated])
    then show "named_edge_of names e = Inr (e, (names ! nat (fst e), names ! nat (snd e)))"
      using len by (simp add: named_edge_of_def seq_get_in_range)
  qed
  then show ?thesis using Some es by (simp add: get_named_edge_indices_def)
qed

theorem get_named_edge_indices_spec_witness:
  "get_named_edge_indices game3 = Inl (PlainException ''node_names are None'')
   \<and> get_named_edge_indices classic_game =
       Inr [((0, 1), (''scissors'', ''paper'')), ((1, 2), (''paper'', ''rock'')),
            ((2, 0), (''rock'', ''scissors''))]"
proof -
  have v1: "names_valid game3" by (simp add: names_valid_def game3_def)
  have v2: "names_valid classic_game" by (simp add: names_valid_def classic_game_def)
  have e: "get_edge_indices classic_game = Inr [(0, 1), (1, 2), (2, 0)]"
    unfolding classic_game_def by code_simp
  have "node_names game3 = None" by (simp add: game3_def)
  then have "get_named_edge_indices game3 = Inl (PlainException ''node_names are None'')"
    using get_named_edge_indices_spec[OF v1] by auto
  moreover have "get_named_edge_indices classic_game =
       Inr [((0, 1), (''scissors'', ''paper'')), ((1, 2), (''paper'', ''rock'')),
            ((2, 0), (''rock'', ''scissors''))]"
    using get_named_edge_indices_spec[OF v2] e by (auto simp: classic_game_def)
  ultimately show ?thesis by simp
qed

subsection \<open>Playing by index\<close>

text \<open>
  Claim C9. Index-form play with both moves given raises exactly when one of the
  indices is outside \<open>[0, N)\<close>; with both in range it returns the outcome of the
  resolver and the pair of indices, and prints nothing. On a game of size 3,
  \<open>play(5)\<close> raises whatever number would be drawn.
\<close>

theorem play_index_form_spec:
  "((\<exists>e. play g (IntMove i) (Some (IntMove j)) drawn = Inl e)
       \<longleftrightarrow> \<not> (0 \<le> i \<and> i < n g \<and> 0 \<le> j \<and> j < n g))
   \<and> (0 \<le> i \<and> i < n g \<and> 0 \<le> j \<and> j < n g \<longrightarrow>
        (\<exists>w. resolve_outcome g i j = Inr w
           \<and> play_int g i (Some j) drawn = Inr (w, (i, j))
           \<and> play g (IntMove i) (Some (IntMove j)) drawn = Inr (Some (w, (i, j)), [])))
   \<and> (n g = 3 \<longrightarrow> play g (IntMove 5) None drawn = Inl AssertionError)"
  by (auto simp: play_def play_int_def resolve_outcome_def)

theorem play_index_form_spec_witness:
  "play game3 (IntMove 2) (Some (IntMove 0)) 1 = Inr (Some (2, (2, 0)), [])
   \<and> (\<exists>e. play game3 (IntMove 0) (Some (IntMove 3)) 1 = Inl e)
   \<and> play game3 (IntMove 5) None 1 = Inl AssertionError"
proof -
  have n3: "n game3 = 3" by (simp add: game3_def)
  have r: "resolve_outcome game3 2 0 = Inr 2" by (simp add: resolve_outcome_def game3_def)
  have "play game3 (IntMove 2) (Some (IntMove 0)) 1 = Inr (Some (2, (2, 0)), [])"
    using play_index_form_spec[of game3 2 0 1] n3 r by auto
  moreover have "\<exists>e. play game3 (IntMove 0) (Some (IntMove 3)) 1 = Inl e"
    using play_index_form_spec[of game3 0 3 1] n3 by simp
  moreover have "play game3 (IntMove 5) None 1 = Inl AssertionError"
    using play_index_form_spec[of game3 0 0 1] n3 by simp
  ultimately show ?thesis by simp
qed

subsection \<open>Playing by name\<close>

lemma seq_index_nth:
  "distinct xs \<Longrightarrow> i < length xs \<Longrightarrow> seq_index xs (xs ! i) = Inr (int i)"
proof (induction xs arbitrary: i)
  case Nil
  then show ?case by simp
next
  case (Cons x xs)
  show ?case
  proof (cases i)
    case 0
    then show ?thesis by simp
  next
    case (Suc k)
    then have "xs ! k \<in> set xs" "k < length xs" using Cons.prems by auto
    then have "x \<noteq> xs ! k" using Cons.prems by auto
    then show ?thesis using Suc Cons by simp
  qed
qed

lemma play_str_names:
  assumes "node_names g = Some names" "int (length names) = n g" "distinct names"
    "i < length names" "j < length names"
  shows "play_str g (names ! i) (Some (names ! j)) drawn = play_int g (int i) (Some (int j)) drawn"
    and "play_str g (names ! i) None drawn = play_int g (int i) None drawn"
  using assms by (simp_all add: play_str_def seq_index_nth)

lemma resolve_outcome_beats:
  assumes "0 \<le> i" "i < n g" "0 \<le> j" "j < n g" "i \<noteq> j"
  shows "resolve_outcome g i j = Inr (if beats i j then i else j)"
  using assms by (auto simp: resolve_outcome_def beats_def max_def min_def)

lemma play_names_result:
  assumes names: "node_names g = Some names" "int (length names) = n g" "distinct names"
    and verbs: "edge_verbs g = Some verbs"
    and ij: "i < length names" "j < length names"
  shows "play g (StrMove (names ! i)) (Some (StrMove (names ! j))) drawn =
      (if i = j then Inr (None, [names ! j @ '' vs. '' @ names ! j @ '', tie!''])
       else if beats (int i) (int j) then
         (case fmlookup verbs (int i, int j) of
            None \<Rightarrow> Inl KeyError
          | Some verb \<Rightarrow>
              Inr (None, [names ! i @ '' '' @ verb @ '' '' @ names ! j @ '', player1 wins!'']))
       else
         (case fmlookup verbs (int j, int i) of
            None \<Rightarrow> Inl KeyError
          | Some verb \<Rightarrow>
              Inr (None, [names ! j @ '' '' @ verb @ '' '' @ names ! i @ '', player2 wins!''])))"
    (is ?explicit)
  and "play g (StrMove (names ! i)) None (int j) =
      (if i = j then Inr (None, [names ! j @ '' vs. '' @ names ! j @ '', tie!''])
       else if beats (int i) (int j) then
         (case fmlookup verbs (int i, int j) of
            None \<Rightarrow> Inl KeyError
          | Some verb \<Rightarrow>
              Inr (None, [names ! i @ '' '' @ verb @ '' '' @ names ! j @ '', you win!'']))
       else
         (case fmlookup verbs (int j, int i) of
            None \<Rightarrow> Inl KeyError
          | Some verb \<Rightarrow>
              Inr (None, [names ! j @ '' '' @ verb @ '' '' @ names ! i @ '', you lose!''])))"
    (is ?sampled)
proof -
  have range: "0 \<le> int i" "int i < n g" "0 \<le> int j" "int j < n g" using names ij by auto
  define w where "w = (if i = j then - 1 else if beats (int i) (int j) then int i else int j)"
  have res: "resolve_outcome g (int i) (int j) = Inr w"
  proof (cases "i = j")
    case True
    then show ?thesis using range by (simp add: resolve_outcome_def w_def)
  next
    case False
    then show ?thesis using resolve_outcome_beats[OF range] by (simp add: w_def)
  qed
  have pi: "play_int g (int i) (Some (int j)) drawn = Inr (w, (int i, int j))"
    "play_int g (int i) None (int j) = Inr (w, (int i, int j))"
    using range res by (simp_all add: play_int_def)
  have ps: "play_str g (names ! i) (Some (names ! j)) drawn = Inr (w, (int i, int j))"
    "play_str g (names ! i) None (int j) = Inr (w, (int i, int j))"
    using play_str_names[OF names ij] pi by simp_all
  have sg: "seq_get names (int i) = Inr (names ! i)" "seq_get names (int j) = Inr (names ! j)"
    using ij by (simp_all add: seq_get_in_range)
  have nar: "narrative names verbs s (w, (int i, int j)) =
      (if i = j then Inr (names ! j @ '' vs. '' @ names ! j @ '', tie!'')
       else if beats (int i) (int j) then
         (case fmlookup verbs (int i, int j) of
            None \<Rightarrow> Inl KeyError
          | Some verb \<Rightarrow>
              if s then Inr (names ! i @ '' '' @ verb @ '' '' @ names ! j @ '', you win!'')
              else Inr (names ! i @ '' '' @ verb @ '' '' @ names ! j @ '', player1 wins!''))
       else
         (case fmlookup verbs (int j, int i) of
            None \<Rightarrow> Inl KeyError
          | Some verb \<Rightarrow>
              if s then Inr (names ! j @ '' '' @ verb @ '' '' @ names ! i @ '', you lose!'')
              else Inr (names ! j @ '' '' @ verb @ '' '' @ names ! i @ '', player2 wins!'')))" for s
    unfolding narrative_def w_def
    by (simp add: sg dict_get_def split: option.splits)
  show ?explicit using names verbs ps(1) nar[of False]
    by (simp add: play_def split: option.splits)
  show ?sampled using names verbs ps(2) nar[of True]
    by (simp add: play_def split: option.splits)
qed

text \<open>
  Claim C5, as amended. Let the names (\<open>N\<close> distinct strings) and the verbs be
  set and let the moves \<open>A\<close> and \<open>B\<close> be names of the game, \<open>B\<close> given or drawn.
  Then \<open>play\<close> returns \<open>None\<close> and prints one line, or raises \<open>KeyError\<close> when
  the match is decided and the verb map has no entry for the pair
  (winner index, loser index). The line is \<open>B vs. B, tie!\<close> for equal moves,
  where no verb is looked up; \<open>A verb B, player1 wins!\<close> (given) or
  \<open>A verb B, you win!\<close> (drawn) when the first move wins; and
  \<open>B verb A, player2 wins!\<close> (given) or \<open>B verb A, you lose!\<close> (drawn) when it
  loses, the verb being the entry for (winner index, loser index).
\<close>

theorem play_name_form_narrative:
  assumes "node_names g = Some names" "edge_verbs g = Some verbs"
    "int (length names) = n g" "distinct names"
    "i < length names" "j < length names"
    "a = names ! i" "b = names ! j"
  shows "play g (StrMove a) (Some (StrMove b)) drawn =
      (if i = j then Inr (None, [b @ '' vs. '' @ b @ '', tie!''])
       else if (if even i = even j then j < i else i < j) then
         (case fmlookup verbs (int i, int j) of
            None \<Rightarrow> Inl KeyError
          | Some verb \<Rightarrow> Inr (None, [a @ '' '' @ verb @ '' '' @ b @ '', player1 wins!'']))
       else
         (case fmlookup verbs (int j, int i) of
            None \<Rightarrow> Inl KeyError
          | Some verb \<Rightarrow> Inr (None, [b @ '' '' @ verb @ '' '' @ a @ '', player2 wins!''])))
    \<and> play g (StrMove a) None (int j) =
      (if i = j then Inr (None, [b @ '' vs. '' @ b @ '', tie!''])
       else if (if even i = even j then j < i else i < j) then
         (case fmlookup verbs (int i, int j) of
            None \<Rightarrow> Inl KeyError
          | Some verb \<Rightarrow> Inr (None, [a @ '' '' @ verb @ '' '' @ b @ '', you win!'']))
       else
         (case fmlookup verbs (int j, int i) of
            None \<Rightarrow> Inl KeyError
          | Some verb \<Rightarrow> Inr (None, [b @ '' '' @ verb @ '' '' @ a @ '', you lose!''])))"
proof -
  have "(int i mod 2 = int j mod 2) \<longleftrightarrow> (even i = even j)" by presburger
  then have b: "i \<noteq> j \<Longrightarrow> beats (int i) (int j) \<longleftrightarrow> (if even i = even j then j < i else i < j)"
    by (simp add: beats_def)
  show ?thesis
    unfolding assms(7,8)
    using play_names_result(1)[OF assms(1,3,4,2,5,6), where drawn = drawn]
      play_names_result(2)[OF assms(1,3,4,2,5,6)] b
    by (cases "i = j") simp_all
qed

theorem play_name_form_narrative_witness:
  "play classic_game (StrMove ''rock'') (Some (StrMove ''scissors'')) 1
      = Inr (None, [''rock smashes scissors, player1 wins!''])
   \<and> play classic_game (StrMove ''rock'') None 0
      = Inr (None, [''rock smashes scissors, you win!''])
   \<and> play classic_game (StrMove ''scissors'') (Some (StrMove ''rock'')) 1
      = Inr (None, [''rock smashes scissors, player2 wins!''])
   \<and> play classic_game (StrMove ''scissors'') None 2
      = Inr (None, [''rock smashes scissors, you lose!''])
   \<and> play classic_game (StrMove ''paper'') (Some (StrMove ''paper'')) 0
      = Inr (None, [''paper vs. paper, tie!''])
   \<and> play classic_game (StrMove ''paper'') None 1
      = Inr (None, [''paper vs. paper, tie!''])
   \<and> play mismatched_game (StrMove ''rock'') (Some (StrMove ''scissors'')) 1 = Inl KeyError"
proof -
  let ?names = "[''scissors'', ''paper'', ''rock'']"
  let ?verbs = "py_dict [((0, 1), ''cuts''), ((1, 2), ''wraps''), ((2, 0), ''smashes'')]
                  :: (edge, string) fmap"
  have h: "node_names classic_game = Some ?names" "edge_verbs classic_game = Some ?verbs"
    "int (length ?names) = n classic_game" "distinct ?names"
    by (simp_all add: classic_game_def)
  have m: "node_names mismatched_game = Some ?names"
    "edge_verbs mismatched_game = Some mismatched_verbs"
    "int (length ?names) = n mismatched_game"
    by (simp_all add: mismatched_game_def classic_game_def)
  have l: "fmlookup ?verbs (2, 0) = Some ''smashes''" "fmlookup mismatched_verbs (2, 0) = None"
    by (simp_all add: py_dict_def mismatched_verbs_def)
  have w1: "play classic_game (StrMove ''rock'') (Some (StrMove ''scissors'')) 1
              = Inr (None, [''rock smashes scissors, player1 wins!''])"
    "play classic_game (StrMove ''rock'') None 0
              = Inr (None, [''rock smashes scissors, you win!''])"
    using play_name_form_narrative[OF h, of 2 0 "''rock''" "''scissors''" 1] l by simp_all
  have w2: "play classic_game (StrMove ''scissors'') (Some (StrMove ''rock'')) 1
              = Inr (None, [''rock smashes scissors, player2 wins!''])"
    "play classic_game (StrMove ''scissors'') None 2
              = Inr (None, [''rock smashes scissors, you lose!''])"
    using play_name_form_narrative[OF h, of 0 2 "''scissors''" "''rock''" 1] l by simp_all
  have w3: "play classic_game (StrMove ''paper'') (Some (StrMove ''paper'')) 0
              = Inr (None, [''paper vs. paper, tie!''])"
    "play classic_game (StrMove ''paper'') None 1
              = Inr (None, [''paper vs. paper, tie!''])"
    using play_name_form_narrative[OF h, of 1 1 "''paper''" "''paper''" 0] by simp_all
  have w4: "play mismatched_game (StrMove ''rock'') (Some (StrMove ''scissors'')) 1 = Inl KeyError"
    using play_name_form_narrative[OF m h(4), of 2 0 "''rock''" "''scissors''" 1] l by simp
  show ?thesis using w1 w2 w3 w4 by simp
qed

text \<open>
  Claim C5 as stated fails: name-form play on the classic game returns \<open>None\<close>,
  not a match result, the narrative being printed; and on a game whose verb map
  has the right number of keys but not the edges as keys it raises \<open>KeyError\<close>.
\<close>

theorem play_name_form_returns_no_result:
  "play classic_game (StrMove ''rock'') (Some (StrMove ''scissors'')) 0
     = Inr (None, [''rock smashes scissors, player1 wins!''])
   \<and> play mismatched_game (StrMove ''rock'') (Some (StrMove ''scissors'')) 0 = Inl KeyError"
  unfolding mismatched_game_def mismatched_verbs_def classic_game_def by code_simp

subsection \<open>The stored edge count and the verb map\<close>

lemma bit_length_le: "0 \<le> k \<Longrightarrow> k < 2 ^ m \<Longrightarrow> bit_length k \<le> m"
proof (induction m arbitrary: k)
  case 0
  then have "k = 0" by simp
  then show ?case by (simp add: bit_length.simps)
next
  case (Suc m)
  show ?case
  proof (cases "k = 0")
    case True
    then show ?thesis by (simp add: bit_length.simps)
  next
    case False
    have "0 \<le> k div 2" "k div 2 < 2 ^ m" using Suc.prems by auto
    then have "bit_length (k div 2) \<le> m" by (rule Suc.IH)
    moreover have "\<bar>k\<bar> = k" using Suc.prems by simp
    ultimately show ?thesis using False by (subst bit_length.simps) simp
  qed
qed

lemma round_double_exact:
  assumes "0 \<le> q" "q < 2 ^ 53"
  shows "round_double q = q"
proof -
  have "bit_length q \<le> 53" using assms by (rule bit_length_le)
  then show ?thesis by (simp add: round_double_def)
qed

lemma int_truediv2_exact:
  assumes "0 \<le> a div 2" "a div 2 < 2 ^ 53"
  shows "int_truediv2 a = Inr (a div 2)"
proof -
  have r: "round_double (a div 2) = a div 2" using assms by (rule round_double_exact)
  have "(2::int) ^ 53 \<le> 2 ^ 1024" by (rule power_increasing) simp_all
  then have "\<not> 2 ^ 1024 \<le> a div 2" using assms by linarith
  then show ?thesis unfolding int_truediv2_def Let_def r by (simp only: if_False)
qed

lemma GRPS_exact:
  assumes "2 < k" "odd k" "k * (k - 1) div 2 < 2 ^ 53"
  shows "GRPS k = Inr \<lparr>n = k, ne = k * (k - 1) div 2, edge_verbs = None, node_names = None\<rparr>"
proof -
  have "int_truediv2 (k * (k - 1)) = Inr (k * (k - 1) div 2)"
  proof (rule int_truediv2_exact)
    have "0 \<le> k * (k - 1)" using assms(1) by simp
    then show "0 \<le> k * (k - 1) div 2" by simp
    show "k * (k - 1) div 2 < 2 ^ 53" by (rule assms(3))
  qed
  moreover have "k mod 2 = 1" using assms(2) by presburger
  ultimately show ?thesis using assms(1) unfolding GRPS_def by simp
qed

lemma edge_verbs_setter_fails_iff:
  "fst (edge_verbs_setter g v) \<noteq> None \<longleftrightarrow> py_len v \<noteq> ne g"
  by (simp add: edge_verbs_setter_def)

lemma edge_verbs_setter_accepts_mismatched_keys:
  "edge_verbs_setter classic_game mismatched_verbs = (None, mismatched_game)
   \<and> py_len mismatched_verbs = ne classic_game
   \<and> get_edge_indices classic_game = Inr [(0, 1), (1, 2), (2, 0)]
   \<and> fset (fmdom mismatched_verbs) = {(0, 0), (1, 1), (2, 2)}"
proof -
  have a: "py_len mismatched_verbs = 3"
    by (simp add: py_len_def mismatched_verbs_def py_dict_def fcard_finsert_if fcard_fempty)
  have b: "get_edge_indices classic_game = Inr [(0, 1), (1, 2), (2, 0)]"
    unfolding classic_game_def by code_simp
  have c: "fset (fmdom mismatched_verbs) = {(0, 0), (1, 1), (2, 2)}"
    by (auto simp: mismatched_verbs_def py_dict_def)
  show ?thesis using a b c
    by (simp add: edge_verbs_setter_def mismatched_game_def classic_game_def)
qed

text \<open>
  Claim C6 at \<open>N = 134217731\<close>: the constructor stores \<open>ne = 9007199590285316\<close>,
  the double nearest to \<open>N (N - 1) / 2 = 9007199590285315\<close>, so the setter accepts
  exactly the maps with \<open>N (N - 1) / 2 + 1\<close> keys.
\<close>

theorem edge_count_inexact_at_134217731:
  "GRPS 134217731 =
     Inr \<lparr>n = 134217731, ne = 9007199590285316, edge_verbs = None, node_names = None\<rparr>
   \<and> 134217731 * (134217731 - 1) div 2 = (9007199590285315 :: int)
   \<and> (fst (edge_verbs_setter
              \<lparr>n = 134217731, ne = 9007199590285316, edge_verbs = None, node_names = None\<rparr> v)
          = None \<longleftrightarrow> py_len v = 134217731 * (134217731 - 1) div 2 + 1)"
proof (intro conjI)
  show "GRPS 134217731 =
     Inr \<lparr>n = 134217731, ne = 9007199590285316, edge_verbs = None, node_names = None\<rparr>"
    by code_simp
  show "134217731 * (134217731 - 1) div 2 = (9007199590285315 :: int)"
    by simp
  show "fst (edge_verbs_setter
              \<lparr>n = 134217731, ne = 9007199590285316, edge_verbs = None, node_names = None\<rparr> v)
          = None \<longleftrightarrow> py_len v = 134217731 * (134217731 - 1) div 2 + 1"
    by (simp add: edge_verbs_setter_def)
qed

subsection \<open>The factory configurations\<close>

lemma spock_verbs_dom:
  "fmdom spock_verbs =
     {|(0, 1), (0, 3), (1, 2), (1, 4), (2, 0), (2, 3), (3, 1), (3, 4), (4, 0), (4, 2)|}"
  unfolding spock_verbs_def py_dict_def by (simp; blast)

lemma spock_verbs_len: "py_len spock_verbs = 10"
  unfolding py_len_def spock_verbs_dom by (simp add: fcard_finsert_if fcard_fempty)

lemma spock_names:
  "node_names_setter game5 [''scissors'', ''paper'', ''rock'', ''lizard'', ''spock'']
     = (None, game5\<lparr>node_names := Some [''scissors'', ''paper'', ''rock'', ''lizard'', ''spock'']\<rparr>)"
  by (simp add: node_names_setter_def len_set_eq_len_def game5_def)

lemma classic_edge_verbs:
  "edge_verbs classic_game
     = Some (py_dict [((0, 1), ''cuts''), ((1, 2), ''wraps''), ((2, 0), ''smashes'')])"
  by (simp add: classic_game_def)

lemma spock_eq: "spock_version = Inr spock_game"
proof -
  have "edge_verbs_setter
          (game5\<lparr>node_names := Some [''scissors'', ''paper'', ''rock'', ''lizard'', ''spock'']\<rparr>)
          spock_verbs = (None, spock_game)"
    using spock_verbs_len by (simp add: edge_verbs_setter_def game5_def spock_game_def)
  then show ?thesis
    unfolding spock_verbs_def
    by (simp add: spock_version_def GRPS_5 spock_names classic_eq classic_edge_verbs)
qed

lemma classic_edges: "get_edge_indices classic_game = Inr [(0, 1), (1, 2), (2, 0)]"
  unfolding classic_game_def by code_simp

lemma spock_edges:
  "get_edge_indices spock_game =
     Inr [(0, 1), (0, 3), (1, 2), (1, 4), (2, 0), (2, 3), (3, 1), (3, 4), (4, 0), (4, 2)]"
proof -
  have "get_edge_indices spock_game = get_edge_indices game5"
    by (simp add: get_edge_indices_eq spock_game_def game5_def)
  also have "\<dots> = Inr [(0, 1), (0, 3), (1, 2), (1, 4), (2, 0), (2, 3), (3, 1), (3, 4), (4, 0), (4, 2)]"
    unfolding game5_def by code_simp
  finally show ?thesis .
qed

lemma play_two_names_finds_verb:
  assumes names: "node_names g = Some names" "int (length names) = n g" "distinct names"
    and verbs: "edge_verbs g = Some verbs"
    and dom: "verbs_match_edges g"
    and ij: "i < length names" "j < length names" "i \<noteq> j"
  shows "\<exists>verb.
      fmlookup verbs (if (if even i = even j then j < i else i < j)
                      then (int i, int j) else (int j, int i)) = Some verb
      \<and> play g (StrMove (names ! i)) (Some (StrMove (names ! j))) drawn =
          Inr (None, [if (if even i = even j then j < i else i < j)
                      then names ! i @ '' '' @ verb @ '' '' @ names ! j @ '', player1 wins!''
                      else names ! j @ '' '' @ verb @ '' '' @ names ! i @ '', player2 wins!''])
      \<and> play g (StrMove (names ! i)) None (int j) =
          Inr (None, [if (if even i = even j then j < i else i < j)
                      then names ! i @ '' '' @ verb @ '' '' @ names ! j @ '', you win!''
                      else names ! j @ '' '' @ verb @ '' '' @ names ! i @ '', you lose!''])"
proof -
  have range: "0 \<le> int i" "int i < n g" "0 \<le> int j" "int j < n g" using names ij by auto
  have keys: "fset (fmdom verbs) = {(a, b). 0 \<le> a \<and> a < n g \<and> 0 \<le> b \<and> b < n g \<and> beats a b}"
    using dom verbs edges_set[of "n g"] by (simp add: verbs_match_edges_def get_edge_indices_eq)
  have "(int i mod 2 = int j mod 2) \<longleftrightarrow> (even i = even j)" by presburger
  then have b: "beats (int i) (int j) \<longleftrightarrow> (if even i = even j then j < i else i < j)"
    using ij by (simp add: beats_def)
  note pr = play_names_result(1)[OF names verbs ij(1,2), where drawn = drawn]
    play_names_result(2)[OF names verbs ij(1,2)]
  show ?thesis
  proof (cases "beats (int i) (int j)")
    case True
    then have "(int i, int j) \<in> fset (fmdom verbs)" using keys range by simp
    then obtain verb where "fmlookup verbs (int i, int j) = Some verb"
      by (auto simp: fmlookup_dom_iff)
    then show ?thesis using True pr b ij by simp
  next
    case False
    then have "beats (int j) (int i)" using beats_antisym[of "int i" "int j"] ij by simp
    then have "(int j, int i) \<in> fset (fmdom verbs)" using keys range by simp
    then obtain verb where "fmlookup verbs (int j, int i) = Some verb"
      by (auto simp: fmlookup_dom_iff)
    then show ?thesis using False pr b ij by simp
  qed
qed

text \<open>
  Claim C10. \<open>classic()\<close> and \<open>spock_version()\<close> return games of size 3 and 5
  whose verb map has exactly the enumerated edges as keys and whose names are
  \<open>N\<close> distinct strings. So for two different names of such a game, the second
  given or drawn, the stored map has an entry for the pair
  (winner index, loser index), and \<open>play\<close> prints the line built from that
  entry.
\<close>

theorem factory_configurations_consistent:
  "classic = Inr classic_game \<and> n classic_game = 3
   \<and> verbs_match_edges classic_game
   \<and> node_names classic_game = Some [''scissors'', ''paper'', ''rock'']
   \<and> names_valid classic_game
   \<and> spock_version = Inr spock_game \<and> n spock_game = 5
   \<and> verbs_match_edges spock_game
   \<and> node_names spock_game = Some [''scissors'', ''paper'', ''rock'', ''lizard'', ''spock'']
   \<and> names_valid spock_game
   \<and> (\<forall>g \<in> {classic_game, spock_game}.
        \<exists>names verbs. node_names g = Some names \<and> edge_verbs g = Some verbs \<and>
          (\<forall>i < length names. \<forall>j < length names. i \<noteq> j \<longrightarrow>
            (\<exists>verb.
               fmlookup verbs (if (if even i = even j then j < i else i < j)
                               then (int i, int j) else (int j, int i)) = Some verb
               \<and> play g (StrMove (names ! i)) (Some (StrMove (names ! j))) drawn =
                   Inr (None, [if (if even i = even j then j < i else i < j)
                               then names ! i @ '' '' @ verb @ '' '' @ names ! j @ '', player1 wins!''
                               else names ! j @ '' '' @ verb @ '' '' @ names ! i @ '', player2 wins!''])
               \<and> play g (StrMove (names ! i)) None (int j) =
                   Inr (None, [if (if even i = even j then j < i else i < j)
                               then names ! i @ '' '' @ verb @ '' '' @ names ! j @ '', you win!''
                               else names ! j @ '' '' @ verb @ '' '' @ names ! i @ '', you lose!'']))))"
proof -
  have c1: "verbs_match_edges classic_game"
    unfolding verbs_match_edges_def classic_edges
    by (auto simp: classic_game_def py_dict_def)
  have c2: "node_names classic_game = Some [''scissors'', ''paper'', ''rock'']"
    "n classic_game = 3" by (simp_all add: classic_game_def)
  have c5: "names_valid classic_game" by (simp add: names_valid_def classic_game_def)
  have s1: "verbs_match_edges spock_game"
    unfolding verbs_match_edges_def spock_edges
    by (simp add: spock_game_def spock_verbs_dom; blast)
  have s2: "node_names spock_game = Some [''scissors'', ''paper'', ''rock'', ''lizard'', ''spock'']"
    "n spock_game = 5" by (simp_all add: spock_game_def)
  have s5: "names_valid spock_game" by (simp add: names_valid_def spock_game_def)
  have gen: "\<exists>names verbs. node_names g = Some names \<and> edge_verbs g = Some verbs \<and>
          (\<forall>i < length names. \<forall>j < length names. i \<noteq> j \<longrightarrow>
            (\<exists>verb.
               fmlookup verbs (if (if even i = even j then j < i else i < j)
                               then (int i, int j) else (int j, int i)) = Some verb
               \<and> play g (StrMove (names ! i)) (Some (StrMove (names ! j))) drawn =
                   Inr (None, [if (if even i = even j then j < i else i < j)
                               then names ! i @ '' '' @ verb @ '' '' @ names ! j @ '', player1 wins!''
                               else names ! j @ '' '' @ verb @ '' '' @ names ! i @ '', player2 wins!''])
               \<and> play g (StrMove (names ! i)) None (int j) =
                   Inr (None, [if (if even i = even j then j < i else i < j)
                               then names ! i @ '' '' @ verb @ '' '' @ names ! j @ '', you win!''
                               else names ! j @ '' '' @ verb @ '' '' @ names ! i @ '', you lose!''])))"
    if v: "names_valid g" and m: "verbs_match_edges g" and nm: "node_names g = Some names0"
    for g names0
  proof -
    obtain verbs where verbs: "edge_verbs g = Some verbs"
      using m by (auto simp: verbs_match_edges_def split: sum.splits option.splits)
    have len: "int (length names0) = n g" "distinct names0"
      using v nm by (simp_all add: names_valid_def)
    show ?thesis
      using play_two_names_finds_verb[OF nm len verbs m, where drawn = drawn] nm verbs
      by blast
  qed
  have "\<forall>g \<in> {classic_game, spock_game}.
        \<exists>names verbs. node_names g = Some names \<and> edge_verbs g = Some verbs \<and>
          (\<forall>i < length names. \<forall>j < length names. i \<noteq> j \<longrightarrow>
            (\<exists>verb.
               fmlookup verbs (if (if even i = even j then j < i else i < j)
                               then (int i, int j) else (int j, int i)) = Some verb
               \<and> play g (StrMove (names ! i)) (Some (StrMove (names ! j))) drawn =
                   Inr (None, [if (if even i = even j then j < i else i < j)
                               then names ! i @ '' '' @ verb @ '' '' @ names ! j @ '', player1 wins!''
                               else names ! j @ '' '' @ verb @ '' '' @ names ! i @ '', player2 wins!''])
               \<and> play g (StrMove (names ! i)) None (int j) =
                   Inr (None, [if (if even i = even j then j < i else i < j)
                               then names ! i @ '' '' @ verb @ '' '' @ names ! j @ '', you win!''
                               else names ! j @ '' '' @ verb @ '' '' @ names ! i @ '', you lose!''])))"
    using gen[OF c5 c1 c2(1)] gen[OF s5 s1 s2(1)] by simp
  then show ?thesis
    using classic_eq spock_eq c1 c2 c5 s1 s2 s5 by simp
qed

theorem factory_configurations_consistent_witness:
  "play classic_game (StrMove ''paper'') (Some (StrMove ''rock'')) 0
      = Inr (None, [''paper wraps rock, player1 wins!''])
   \<and> play classic_game (StrMove ''paper'') None 2
      = Inr (None, [''paper wraps rock, you win!''])
   \<and> play spock_game (StrMove ''spock'') (Some (StrMove ''lizard'')) 0
      = Inr (None, [''lizard poisons spock, player2 wins!''])
   \<and> play spock_game (StrMove ''spock'') None 3
      = Inr (None, [''lizard poisons spock, you lose!''])"
proof -
  note t = factory_configurations_consistent[of 0]
  have cg: "classic_game \<in> {classic_game, spock_game}" and sg: "spock_game \<in> {classic_game, spock_game}"
    by simp_all
  from t cg obtain names verbs where c:
    "node_names classic_game = Some names" "edge_verbs classic_game = Some verbs"
    "\<forall>i < length names. \<forall>j < length names. i \<noteq> j \<longrightarrow>
       (\<exists>verb.
          fmlookup verbs (if (if even i = even j then j < i else i < j)
                          then (int i, int j) else (int j, int i)) = Some verb
          \<and> play classic_game (StrMove (names ! i)) (Some (StrMove (names ! j))) 0 =
              Inr (None, [if (if even i = even j then j < i else i < j)
                          then names ! i @ '' '' @ verb @ '' '' @ names ! j @ '', player1 wins!''
                          else names ! j @ '' '' @ verb @ '' '' @ names ! i @ '', player2 wins!''])
          \<and> play classic_game (StrMove (names ! i)) None (int j) =
              Inr (None, [if (if even i = even j then j < i else i < j)
                          then names ! i @ '' '' @ verb @ '' '' @ names ! j @ '', you win!''
                          else names ! j @ '' '' @ verb @ '' '' @ names ! i @ '', you lose!'']))"
    by blast
  have cn: "names = [''scissors'', ''paper'', ''rock'']"
    using c(1) by (simp add: classic_game_def)
  have "verbs = py_dict [((0, 1), ''cuts''), ((1, 2), ''wraps''), ((2, 0), ''smashes'')]"
    using c(2) by (simp add: classic_game_def)
  then have cv: "fmlookup verbs (1, 2) = Some ''wraps''" by (simp add: py_dict_def)
  have "(1::nat) < length names" "(2::nat) < length names" "(1::nat) \<noteq> 2" using cn by simp_all
  with c(3)[rule_format, of 1 2] obtain verb where
    "fmlookup verbs (if (if even (1::nat) = even (2::nat) then (2::nat) < 1 else (1::nat) < 2)
                     then (int 1, int 2) else (int 2, int 1)) = Some verb"
    "play classic_game (StrMove (names ! 1)) (Some (StrMove (names ! 2))) 0 =
        Inr (None, [if (if even (1::nat) = even (2::nat) then (2::nat) < 1 else (1::nat) < 2)
                    then names ! 1 @ '' '' @ verb @ '' '' @ names ! 2 @ '', player1 wins!''
                    else names ! 2 @ '' '' @ verb @ '' '' @ names ! 1 @ '', player2 wins!''])"
    "play classic_game (StrMove (names ! 1)) None (int 2) =
        Inr (None, [if (if even (1::nat) = even (2::nat) then (2::nat) < 1 else (1::nat) < 2)
                    then names ! 1 @ '' '' @ verb @ '' '' @ names ! 2 @ '', you win!''
                    else names ! 2 @ '' '' @ verb @ '' '' @ names ! 1 @ '', you lose!''])"
    by blast
  then have w1: "play classic_game (StrMove ''paper'') (Some (StrMove ''rock'')) 0
      = Inr (None, [''paper wraps rock, player1 wins!''])"
    "play classic_game (StrMove ''paper'') None 2
      = Inr (None, [''paper wraps rock, you win!''])"
    using cn cv by simp_all
  from t sg obtain names' verbs' where s:
    "node_names spock_game = Some names'" "edge_verbs spock_game = Some verbs'"
    "\<forall>i < length names'. \<forall>j < length names'. i \<noteq> j \<longrightarrow>
       (\<exists>verb.
          fmlookup verbs' (if (if even i = even j then j < i else i < j)
                          then (int i, int j) else (int j, int i)) = Some verb
          \<and> play spock_game (StrMove (names' ! i)) (Some (StrMove (names' ! j))) 0 =
              Inr (None, [if (if even i = even j then j < i else i < j)
                          then names' ! i @ '' '' @ verb @ '' '' @ names' ! j @ '', player1 wins!''
                          else names' ! j @ '' '' @ verb @ '' '' @ names' ! i @ '', player2 wins!''])
          \<and> play spock_game (StrMove (names' ! i)) None (int j) =
              Inr (None, [if (if even i = even j then j < i else i < j)
                          then names' ! i @ '' '' @ verb @ '' '' @ names' ! j @ '', you win!''
                          else names' ! j @ '' '' @ verb @ '' '' @ names' ! i @ '', you lose!'']))"
    by blast
  have sn: "names' = [''scissors'', ''paper'', ''rock'', ''lizard'', ''spock'']"
    using s(1) by (simp add: spock_game_def)
  have "verbs' = spock_verbs" using s(2) by (simp add: spock_game_def)
  then have sv: "fmlookup verbs' (3, 4) = Some ''poisons''"
    by (simp add: spock_verbs_def py_dict_def)
  have "(4::nat) < length names'" "(3::nat) < length names'" "(4::nat) \<noteq> 3" using sn by simp_all
  with s(3)[rule_format, of 4 3] obtain verb' where
    "fmlookup verbs' (if (if even (4::nat) = even (3::nat) then (3::nat) < 4 else (4::nat) < 3)
                     then (int 4, int 3) else (int 3, int 4)) = Some verb'"
    "play spock_game (StrMove (names' ! 4)) (Some (StrMove (names' ! 3))) 0 =
        Inr (None, [if (if even (4::nat) = even (3::nat) then (3::nat) < 4 else (4::nat) < 3)
                    then names' ! 4 @ '' '' @ verb' @ '' '' @ names' ! 3 @ '', player1 wins!''
                    else names' ! 3 @ '' '' @ verb' @ '' '' @ names' ! 4 @ '', player2 wins!''])"
    "play spock_game (StrMove (names' ! 4)) None (int 3) =
        Inr (None, [if (if even (4::nat) = even (3::nat) then (3::nat) < 4 else (4::nat) < 3)
                    then names' ! 4 @ '' '' @ verb' @ '' '' @ names' ! 3 @ '', you win!''
                    else names' ! 3 @ '' '' @ verb' @ '' '' @ names' ! 4 @ '', you lose!''])"
    by blast
  then have w2: "play spock_game (StrMove ''spock'') (Some (StrMove ''lizard'')) 0
      = Inr (None, [''lizard poisons spock, player2 wins!''])"
    "play spock_game (StrMove ''spock'') None 3
      = Inr (None, [''lizard poisons spock, you lose!''])"
    using sn sv by simp_all
  show ?thesis using w1 w2 by simp
qed

end
